theory Spec2Isabelle
  imports Main "HOL-Library.Sublist"
begin

section \<open>Values and notification objects\<close>

text \<open>
  The module \<open>index.js\<close> keeps its scheduler state in module-level variables and is
  driven by the JavaScript event loop. The embedding makes that state a record and every
  callback of the source (a promise continuation, a timer, an IPC handler, an API call)
  a function on the record. Objects that the source shares by reference (the request
  objects) live in a store indexed by reference; windows and timers are handles.
\<close>

type_synonym ref = nat
type_synonym win = nat
type_synonym timeoutId = nat
type_synonym callback = nat

datatype jsval =
    JUndefined
  | JNull
  | JBool bool
  | JNum int
  | JStr string
  | JFunction callback
  | JObject ref

fun typeof :: "jsval \<Rightarrow> string" where
  "typeof JUndefined = ''undefined''"
| "typeof JNull = ''object''"
| "typeof (JBool b) = ''boolean''"
| "typeof (JNum n) = ''number''"
| "typeof (JStr s) = ''string''"
| "typeof (JFunction f) = ''function''"
| "typeof (JObject r) = ''object''"

fun truthy :: "jsval \<Rightarrow> bool" where
  "truthy JUndefined = False"
| "truthy JNull = False"
| "truthy (JBool b) = b"
| "truthy (JNum n) = (n \<noteq> 0)"
| "truthy (JStr s) = (s \<noteq> [])"
| "truthy (JFunction f) = True"
| "truthy (JObject r) = True"

text \<open>
  A request object as the core reads and writes it. The field \<open>id\<close> of the source
  is \<open>id_field\<close> here. The callbacks are functions of the caller or absent;
  \<open>content\<close> stands for every other property (title, text, image, sound, ...).
\<close>

record notification =
  id_field :: jsval
  closed :: jsval
  displayTime :: jsval
  onShowFunc :: "callback option"
  onCloseFunc :: "callback option"
  onClickFunc :: "callback option"
  url :: jsval
  content :: "(string \<times> jsval) list"

text \<open>
  The function returned by \<open>buildCloseNotification(notificationWindow, notificationObj,
  getTimeoutId)\<close> is represented by the three values it closes over. \<open>getTimeoutId\<close>
  is \<open>None\<close> when the third argument is not passed (the IPC handlers), and otherwise
  the timer id that the getter returns once \<open>showNotification\<close> has armed the timer.
\<close>

record closeFn =
  notificationWindow :: win
  notificationObj :: ref
  getTimeoutId :: "timeoutId option"

text \<open>An entry of the animation queue: \<open>{func: showNotification, args: [notification]}\<close>
  or \<open>{func: closeFunc, args: [reason]}\<close>.\<close>

datatype task =
    Show ref
  | Close closeFn jsval

text \<open>
  The promise returned by a task's function: already fulfilled, waiting for
  \<open>getWindow()\<close>, or waiting for the cascade animation of \<open>moveOneDown\<close>.
\<close>

datatype promise =
    Resolved
  | GetWindow win ref
  | Moving

datatype error = TypeError

text \<open>What the module does to its collaborators, in order: log lines, callbacks of the
  caller, window operations, timers.\<close>

datatype effect =
    Log string
  | OnShow callback ref jsval closeFn
  | OnClose callback ref jsval jsval
  | OnClick callback ref jsval closeFn
  | OpenExternal jsval
  | NewWindow win
  | SetTimeout timeoutId jsval
  | ClearTimeout timeoutId
  | SetContents win ref
  | ShowInactive win
  | ResetContents win
  | Hide win
  | WindowClose win

section \<open>Scheduler state\<close>

text \<open>
  \<open>queue\<close> and \<open>running\<close> are the two fields of the \<open>AnimationQueue\<close>;
  \<open>activeNotifications\<close>, \<open>inactiveWindows\<close>, \<open>notificationQueue\<close> and
  \<open>latestID\<close> are the module variables of the same names;
  \<open>maxVisibleNotifications\<close>, \<open>config_displayTime\<close> and \<open>config_templatePath\<close>
  (\<open>None\<close> while it is undefined) are the entries of \<open>config\<close> the scheduler
  reads; \<open>templateFound\<close> says whether \<open>statSync\<close> finds \<open>notification.html\<close> in
  the module directory. \<open>heap\<close> is the object store, \<open>timers\<close> the
  armed timers with the close function each one will call. \<open>executing\<close> lists the
  task promises that \<open>animate\<close> is waiting on; \<open>pushed\<close> and \<open>started\<close>
  record every call of \<open>push\<close> and of \<open>animate\<close> in order; \<open>trace\<close> records
  the outputs.
\<close>

record state =
  queue :: "task list"
  running :: bool
  activeNotifications :: "win list"
  inactiveWindows :: "win list"
  notificationQueue :: "ref list"
  latestID :: nat
  maxVisibleNotifications :: int
  config_displayTime :: jsval
  config_templatePath :: "string option"
  templateFound :: bool
  heap :: "ref \<Rightarrow> notification"
  timers :: "timeoutId \<rightharpoonup> closeFn"
  nextTimeoutId :: timeoutId
  nextWindowId :: win
  executing :: "(task \<times> promise) list"
  pushed :: "task list"
  started :: "task list"
  trace :: "effect list"

section \<open>Configuration\<close>

definition config_height :: int where
  "config_height = 65"

definition config_padding :: int where
  "config_padding = 10"

definition totalHeight :: int where
  "totalHeight = config_height + config_padding"

text \<open>Lines 191 and 192: the quotient is floored, then capped at 7.\<close>

definition calcMaxVisible :: "int \<Rightarrow> int" where
  "calcMaxVisible workAreaHeight =
     (let m = workAreaHeight div totalHeight in if m > 7 then 7 else m)"


definition js_increment :: "nat \<Rightarrow> nat" where
  "js_increment n = (if int n < 2 ^ 53 then n + 1 else n)"

definition init :: "int \<Rightarrow> (ref \<Rightarrow> notification) \<Rightarrow> state" where
  "init workAreaHeight h =
     \<lparr> queue = [], running = False, activeNotifications = [], inactiveWindows = [],
       notificationQueue = [], latestID = 0,
       maxVisibleNotifications = calcMaxVisible workAreaHeight,
       config_displayTime = JNum 5000, config_templatePath = None, templateFound = True,
       heap = h, timers = Map.empty,
       nextTimeoutId = 0, nextWindowId = 0, executing = [], pushed = [], started = [],
       trace = [] \<rparr>"

definition log :: "string \<Rightarrow> state \<Rightarrow> state" where
  "log msg s = s\<lparr>trace := trace s @ [Log msg]\<rparr>"

section \<open>Showing a notification\<close>

text \<open>
  \<open>updateTemplatePath\<close> looks for \<open>notification.html\<close> beside the module, logs two
  lines when \<open>statSync\<close> throws, and sets \<open>config.templatePath\<close> either way. The
  module directory is written \<open>__dirname\<close> in the path.
\<close>

definition updateTemplatePath :: "state \<Rightarrow> string \<times> state" where
  "updateTemplatePath s =
     (let templatePath = ''__dirname/notification.html'';
          s1 = (if templateFound s then s
                else log ''node-desktop-notification: To use a different template you need to correct the config.templatePath or simply adapt config.htmlTemplate''
                       (log (''node-desktop-notification: Could not find template ('' @ [CHR 0x22]
                              @ templatePath @ [CHR 0x22] @ '').'') s))
      in (''file://'' @ templatePath,
          s1\<lparr>config_templatePath := Some (''file://'' @ templatePath)\<rparr>))"

definition getTemplatePath :: "state \<Rightarrow> string \<times> state" where
  "getTemplatePath s =
     (case config_templatePath s of
        None \<Rightarrow> updateTemplatePath s
      | Some path \<Rightarrow> (path, s))"

text \<open>The lines that a call of \<open>getTemplatePath\<close> logs in a state.\<close>

definition template_logs :: "state \<Rightarrow> effect list" where
  "template_logs s =
     (if config_templatePath s = None \<and> \<not> templateFound s
      then [Log (''node-desktop-notification: Could not find template ('' @ [CHR 0x22]
                  @ ''__dirname/notification.html'' @ [CHR 0x22] @ '').''),
            Log ''node-desktop-notification: To use a different template you need to correct the config.templatePath or simply adapt config.htmlTemplate'']
      else [])"

text \<open>
  \<open>getWindow\<close>: the most recently recycled window, or a new one. A new window loads
  the template, so \<open>getTemplatePath()\<close> is called for it; the call of \<open>loadURL\<close>
  itself is not recorded.
\<close>

definition getWindow :: "state \<Rightarrow> win \<times> state" where
  "getWindow s =
     (if length (inactiveWindows s) > 0
      then (last (inactiveWindows s), s\<lparr>inactiveWindows := butlast (inactiveWindows s)\<rparr>)
      else (let w = nextWindowId s;
                s1 = s\<lparr>nextWindowId := Suc w, trace := trace s @ [NewWindow w]\<rparr>
            in (w, snd (getTemplatePath s1))))"

text \<open>The executor of the promise of \<open>showNotification\<close>, up to the point where it
  waits for the window.\<close>

definition showNotification :: "ref \<Rightarrow> state \<Rightarrow> promise \<times> state" where
  "showNotification r s =
     (if int (length (activeNotifications s)) < maxVisibleNotifications s
      then (case getWindow s of (w, s1) \<Rightarrow> (GetWindow w r, s1))
      else (Resolved, s\<lparr>notificationQueue := notificationQueue s @ [r]\<rparr>))"

text \<open>The continuation \<open>getWindow().then(function(notificationWindow) {...})\<close>.\<close>

definition showNotification_then :: "win \<Rightarrow> ref \<Rightarrow> state \<Rightarrow> state" where
  "showNotification_then w r s =
     (let s1 = s\<lparr>activeNotifications := activeNotifications s @ [w]\<rparr>;
          delay = (if truthy (displayTime (heap s1 r)) then displayTime (heap s1 r)
                   else config_displayTime s1);
          tid = nextTimeoutId s1;
          closeFunc = \<lparr>notificationWindow = w, notificationObj = r, getTimeoutId = Some tid\<rparr>;
          s2 = s1\<lparr>timers := (timers s1)(tid \<mapsto> closeFunc), nextTimeoutId := Suc tid,
                 trace := trace s1 @ [SetTimeout tid delay]\<rparr>;
          s3 = (case onShowFunc (heap s2 r) of
                  Some f \<Rightarrow> s2\<lparr>trace := trace s2 @ [OnShow f r (id_field (heap s2 r)) closeFunc]\<rparr>
                | None \<Rightarrow> s2)
      in s3\<lparr>trace := trace s3 @ [SetContents w r, ShowInactive w]\<rparr>)"

section \<open>The animation queue and closing\<close>

fun indexOf :: "'a list \<Rightarrow> 'a \<Rightarrow> int" where
  "indexOf [] x = - 1"
| "indexOf (y # ys) x =
     (if y = x then 0 else (let i = indexOf ys x in if i = - 1 then - 1 else i + 1))"

text \<open>\<open>xs.splice(pos, 1)\<close>: a negative start counts from the end.\<close>

definition splice1 :: "int \<Rightarrow> 'a list \<Rightarrow> 'a list" where
  "splice1 pos xs =
     (let n = int (length xs);
          start = (if pos < 0 then max (n + pos) 0 else min pos n)
      in take (nat start) xs @ drop (Suc (nat start)) xs)"

text \<open>
  \<open>moveOneDown\<close> changes window positions only. Its first test compares the number
  with the array itself: an empty array converts to 0 and a non-empty array of windows
  to NaN, for which the comparison is false. The promise is fulfilled at once when
  there is nothing to move and pending while the animation runs.
\<close>

definition moveOneDown :: "int \<Rightarrow> state \<Rightarrow> promise" where
  "moveOneDown startPos s =
     (if (activeNotifications s = [] \<and> startPos \<ge> 0) \<or> startPos = - 1 then Resolved
      else if [i \<leftarrow> [0 ..< length (activeNotifications s)]. startPos \<le> int i] = [] then Resolved
      else Moving)"

function push :: "task \<Rightarrow> state \<Rightarrow> state"
  and animate :: "task \<Rightarrow> state \<Rightarrow> state"
  and closeFunc :: "closeFn \<Rightarrow> jsval \<Rightarrow> state \<Rightarrow> promise \<times> state"
  and checkForQueuedNotifications :: "state \<Rightarrow> state"
where
  "push object s =
     (if running s
      then s\<lparr>queue := queue s @ [object], pushed := pushed s @ [object]\<rparr>
      else animate object (s\<lparr>running := True, pushed := pushed s @ [object]\<rparr>))"
| "animate (Show r) s =
     (case showNotification r (s\<lparr>started := started s @ [Show r]\<rparr>) of
        (p, s1) \<Rightarrow> s1\<lparr>executing := executing s1 @ [(Show r, p)]\<rparr>)"
| "animate (Close c event) s =
     (case closeFunc c event (s\<lparr>started := started s @ [Close c event]\<rparr>) of
        (p, s1) \<Rightarrow> s1\<lparr>executing := executing s1 @ [(Close c event, p)]\<rparr>)"
| "closeFunc c event s =
     (if truthy (closed (heap s (notificationObj c))) then (Resolved, s)
      else
        (let r = notificationObj c;
             w = notificationWindow c;
             s1 = s\<lparr>heap := (heap s)(r := (heap s r)\<lparr>closed := JBool True\<rparr>)\<rparr>;
             s2 = (case onCloseFunc (heap s1 r) of
                     Some f \<Rightarrow> s1\<lparr>trace := trace s1 @ [OnClose f r event (id_field (heap s1 r))]\<rparr>
                   | None \<Rightarrow> s1);
             s3 = s2\<lparr>trace := trace s2 @ [ResetContents w]\<rparr>;
             s4 = (case getTimeoutId c of
                     Some tid \<Rightarrow> s3\<lparr>timers := (timers s3)(tid := None),
                                    trace := trace s3 @ [ClearTimeout tid]\<rparr>
                   | None \<Rightarrow> s3);
             pos = indexOf (activeNotifications s4) w;
             s5 = s4\<lparr>activeNotifications := splice1 pos (activeNotifications s4),
                    inactiveWindows := inactiveWindows s4 @ [w],
                    trace := trace s4 @ [Hide w]\<rparr>;
             s6 = checkForQueuedNotifications s5
         in (moveOneDown pos s6, s6)))"
| "checkForQueuedNotifications s =
     (if length (notificationQueue s) > 0
         \<and> int (length (activeNotifications s)) < maxVisibleNotifications s
      then push (Show (hd (notificationQueue s)))
             (s\<lparr>notificationQueue := tl (notificationQueue s)\<rparr>)
      else s)"
  by pat_completeness auto

text \<open>
  The call chain is a chain and not a loop: a close task can push one show task
  (through \<open>checkForQueuedNotifications\<close>), and a show task pushes nothing.
\<close>

termination
  by (relation "measure (\<lambda>x. case x of
      Inl (Inl (t, s)) \<Rightarrow> (case t of Show r \<Rightarrow> 1 | Close c e \<Rightarrow> 5)
    | Inl (Inr (t, s)) \<Rightarrow> (case t of Show r \<Rightarrow> 0 | Close c e \<Rightarrow> 4)
    | Inr (Inl (c, e, s)) \<Rightarrow> 3
    | Inr (Inr s) \<Rightarrow> (2::nat))")
    (auto split: task.splits)

declare push.simps [simp del]
declare animate.simps [simp del]
declare closeFunc.simps [simp del]
declare checkForQueuedNotifications.simps [simp del]

text \<open>The two handlers that \<open>animate\<close> attaches to the task's promise.\<close>

definition animate_then :: "state \<Rightarrow> state" where
  "animate_then s =
     (if length (queue s) > 0
      then animate (hd (queue s)) (s\<lparr>queue := tl (queue s)\<rparr>)
      else s\<lparr>running := False\<rparr>)"

definition animate_catch :: "state \<Rightarrow> state" where
  "animate_catch s =
     log ''err.stack'' (log ''node-desktop-notification encountered an error!'' s)"

definition clear :: "state \<Rightarrow> state" where
  "clear s = s\<lparr>queue := []\<rparr>"

text \<open>The function returned by \<open>buildCloseNotificationSafely(closeFunc)\<close>.\<close>

definition closeNotificationSafely :: "closeFn \<Rightarrow> jsval \<Rightarrow> state \<Rightarrow> state" where
  "closeNotificationSafely c reason s =
     push (Close c (if reason = JUndefined then JStr ''closedByAPI'' else reason)) s"

text \<open>
  The two IPC handlers. \<open>BrowserWindow.fromId(winId)\<close> is the window of that id; the
  request object is the one the handler is called with.
\<close>

definition ipc_close :: "win \<Rightarrow> ref \<Rightarrow> state \<Rightarrow> state" where
  "ipc_close winId r s =
     closeNotificationSafely
       \<lparr>notificationWindow = winId, notificationObj = r, getTimeoutId = None\<rparr>
       (JStr ''close'') s"

definition ipc_click :: "win \<Rightarrow> ref \<Rightarrow> state \<Rightarrow> state" where
  "ipc_click winId r s =
     (let s1 = (if truthy (url (heap s r))
                then s\<lparr>trace := trace s @ [OpenExternal (url (heap s r))]\<rparr> else s)
      in case onClickFunc (heap s1 r) of
           Some f \<Rightarrow>
             s1\<lparr>trace := trace s1 @
               [OnClick f r (id_field (heap s1 r))
                  \<lparr>notificationWindow = winId, notificationObj = r, getTimeoutId = None\<rparr>]\<rparr>
         | None \<Rightarrow> s1)"

section \<open>The public functions\<close>

text \<open>
  \<open>notify\<close> is called with its argument list. Writing a property of \<open>null\<close>
  throws a TypeError; the function returns its result or the error, and the new state.
\<close>

definition notify :: "jsval list \<Rightarrow> state \<Rightarrow> (error + jsval) \<times> state" where
  "notify arguments s =
     (case arguments of
        [notification] \<Rightarrow>
          (if typeof notification = ''object'' then
             (case notification of
                JObject r \<Rightarrow>
                  (let s1 = s\<lparr>heap := (heap s)(r := (heap s r)\<lparr>id_field := JNum (int (latestID s))\<rparr>)\<rparr>;
                       s2 = s1\<lparr>latestID := js_increment (latestID s1)\<rparr>;
                       s3 = push (Show r) s2
                   in (Inr (id_field (heap s3 r)), s3))
              | _ \<Rightarrow> (Inl TypeError, s))
           else (Inr JUndefined,
                 log ''node-desktop-notification: ERROR notify() only accepts a single object with notification parameters.'' s))
      | _ \<Rightarrow> (Inr JUndefined,
               log ''node-desktop-notification: ERROR notify() only accepts a single object with notification parameters.'' s))"

definition closeAll :: "state \<Rightarrow> state" where
  "closeAll s =
     (let s1 = clear s;
          s2 = s1\<lparr>trace := trace s1 @ map WindowClose (activeNotifications s1)\<rparr>;
          s3 = s2\<lparr>trace := trace s2 @ map WindowClose (inactiveWindows s2)\<rparr>
      in s3\<lparr>activeNotifications := [], inactiveWindows := []\<rparr>)"

section \<open>The event loop\<close>

text \<open>
  One event is one callback that the event loop runs to completion: a call of the
  public API, a callback handed to the caller, an IPC message, a timer, or the
  settling of a promise. An event that cannot occur in the state (a promise or timer
  that does not exist) leaves the state as it is.

  \<^item> \<open>WindowReady i\<close>: \<open>getWindow()\<close> has delivered the window and the
    continuation of \<open>showNotification\<close> runs.
  \<^item> \<open>Fulfil i\<close>: the promise of a task is fulfilled (at once, or when the cascade
    animation ends) and the \<open>then\<close> handler of \<open>animate\<close> runs.
  \<^item> \<open>Reject i\<close>: the cascade animation fails, the pending promise of
    \<open>moveOneDown\<close> is rejected and the \<open>catch\<close> handler of \<open>animate\<close> runs. The
    promise of \<open>showNotification\<close> is never rejected in the source (it is fulfilled
    in both branches or stays pending).
  \<^item> \<open>ApiClose c reason\<close>: the caller invokes a \<open>closeNotification\<close> function it was
    given; any close function is allowed here.
  \<^item> \<open>TemplateFile found\<close>: the file \<open>notification.html\<close> appears in the module
    directory or disappears from it. It is there at the start.

  Every continuation is an event of its own, so the runs of the model include every
  order in which the event loop can run them. What is outside the model: in the
  synchronous part of a task, window operations and callbacks are recorded in the trace
  and return normally; a callback that calls back into the module does so in a later
  event; screen positions and the animation steps are left out; \<open>setConfig\<close> is not
  an event, so the configuration is the one computed when the module is loaded, with
  \<open>logging\<close> on.
\<close>

datatype event =
    Notify "jsval list"
  | CloseAll
  | WindowReady nat
  | Fulfil nat
  | Reject nat
  | Timeout timeoutId
  | IpcClose win ref
  | IpcClick win ref
  | ApiClose closeFn jsval
  | TemplateFile bool

definition settle :: "nat \<Rightarrow> state \<Rightarrow> state" where
  "settle i s = s\<lparr>executing := take i (executing s) @ drop (Suc i) (executing s)\<rparr>"

fun step :: "event \<Rightarrow> state \<Rightarrow> state" where
  "step (Notify arguments) s = snd (notify arguments s)"
| "step CloseAll s = closeAll s"
| "step (WindowReady i) s =
     (if i < length (executing s) then
        (case executing s ! i of
           (t, GetWindow w r) \<Rightarrow>
             (let s1 = showNotification_then w r s
              in s1\<lparr>executing := (executing s1)[i := (t, Resolved)]\<rparr>)
         | _ \<Rightarrow> s)
      else s)"
| "step (Fulfil i) s =
     (if i < length (executing s) then
        (case snd (executing s ! i) of
           GetWindow w r \<Rightarrow> s
         | _ \<Rightarrow> animate_then (settle i s))
      else s)"
| "step (Reject i) s =
     (if i < length (executing s) then
        (case snd (executing s ! i) of
           Moving \<Rightarrow> animate_catch (settle i s)
         | _ \<Rightarrow> s)
      else s)"
| "step (Timeout tid) s =
     (case timers s tid of
        Some c \<Rightarrow> closeNotificationSafely c (JStr ''timeout'') (s\<lparr>timers := (timers s)(tid := None)\<rparr>)
      | None \<Rightarrow> s)"
| "step (IpcClose winId r) s = ipc_close winId r s"
| "step (IpcClick winId r) s = ipc_click winId r s"
| "step (ApiClose c reason) s = closeNotificationSafely c reason s"
| "step (TemplateFile found) s = s\<lparr>templateFound := found\<rparr>"

fun run :: "event list \<Rightarrow> state \<Rightarrow> state" where
  "run [] s = s"
| "run (e # es) s = run es (step e s)"


section \<open>Sample data\<close>

text \<open>A request with an \<open>onCloseFunc\<close> callback and nothing else set, used where a
  property is evaluated on a concrete run.\<close>

definition plain :: notification where
  "plain = \<lparr>id_field = JUndefined, closed = JUndefined, displayTime = JUndefined,
     onShowFunc = None, onCloseFunc = Some 0, onClickFunc = None, url = JUndefined,
     content = []\<rparr>"

section \<open>Relations between a state and a later state\<close>

text \<open>What every function of the scheduler other than \<open>notify\<close> leaves alone: the id
  counter, the configuration, and the request objects except for \<open>closed\<close>, which can
  only be set to \<open>true\<close>.\<close>

definition frame :: "state \<Rightarrow> state \<Rightarrow> bool" where
  "frame s s' =
     (latestID s' = latestID s \<and> maxVisibleNotifications s' = maxVisibleNotifications s
      \<and> config_displayTime s' = config_displayTime s
      \<and> (\<forall>x. heap s' x = heap s x \<or> heap s' x = (heap s x)\<lparr>closed := JBool True\<rparr>))"

text \<open>The calls of \<open>onCloseFunc\<close> for one request are the \<open>OnClose\<close> entries of the
  trace for it. Within one event a request is left as it is (\<open>calm\<close>) or is closed
  once.\<close>

fun onClose_for :: "ref \<Rightarrow> effect \<Rightarrow> bool" where
  "onClose_for r (OnClose f r' e i) = (r' = r)"
| "onClose_for r _ = False"

definition calm :: "ref \<Rightarrow> state \<Rightarrow> state \<Rightarrow> bool" where
  "calm r s s' =
     (filter (onClose_for r) (trace s') = filter (onClose_for r) (trace s)
      \<and> closed (heap s' r) = closed (heap s r))"

definition close_step :: "ref \<Rightarrow> state \<Rightarrow> state \<Rightarrow> bool" where
  "close_step r s s' =
     (calm r s s'
      \<or> (\<not> truthy (closed (heap s r)) \<and> closed (heap s' r) = JBool True
          \<and> length (filter (onClose_for r) (trace s'))
              \<le> Suc (length (filter (onClose_for r) (trace s)))))"

text \<open>Two request objects that agree on every property other than \<open>id\<close> and
  \<open>closed\<close>.\<close>

definition same_request :: "notification \<Rightarrow> notification \<Rightarrow> bool" where
  "same_request a b =
     (displayTime a = displayTime b \<and> onShowFunc a = onShowFunc b
      \<and> onCloseFunc a = onCloseFunc b \<and> onClickFunc a = onClickFunc b
      \<and> url a = url b \<and> content a = content b)"

text \<open>A call of \<open>notify\<close> with exactly one argument that is an object.\<close>

fun valid_call :: "jsval list \<Rightarrow> bool" where
  "valid_call [JObject r] = True"
| "valid_call _ = False"


fun is_Notify :: "event \<Rightarrow> bool" where
  "is_Notify (Notify arguments) = True"
| "is_Notify _ = False"


text \<open>A state with one notification on screen, and the two close functions for it: the
  one built by \<open>showNotification\<close> and the one built by the IPC close handler.\<close>

definition shown :: state where
  "shown = run [Notify [JObject 0], WindowReady 0, Fulfil 0] (init 750 (\<lambda>_. plain))"

definition timeoutClose :: closeFn where
  "timeoutClose = \<lparr>notificationWindow = 0, notificationObj = 0, getTimeoutId = Some 0\<rparr>"

definition ipcClose :: closeFn where
  "ipcClose = \<lparr>notificationWindow = 0, notificationObj = 0, getTimeoutId = None\<rparr>"

text \<open>What a function called while a task is running may do to the animation queue:
  append to it.\<close>

definition appends :: "state \<Rightarrow> state \<Rightarrow> bool" where
  "appends s s' =
     (running s' = running s \<and> executing s' = executing s \<and> started s' = started s
      \<and> (\<exists>xs. queue s' = queue s @ xs \<and> pushed s' = pushed s @ xs))"

text \<open>The invariant of the animation queue: at most one task promise is pending, one is
  pending only while \<open>running\<close> is set, the queue is empty while it is not, and the
  tasks started so far followed by the waiting ones are in the order of their pushes.\<close>

definition serial :: "state \<Rightarrow> bool" where
  "serial s =
     (length (executing s) \<le> 1 \<and> (executing s = [] \<or> running s)
      \<and> (running s \<or> queue s = [])
      \<and> subseq (started s @ queue s) (pushed s))"

text \<open>As long as the queue is never cleared, the tasks started so far followed by the
  waiting ones are exactly the tasks pushed so far.\<close>

definition exact :: "state \<Rightarrow> bool" where
  "exact s = (started s @ queue s = pushed s \<and> (running s \<or> queue s = []))"

text \<open>Two notifications are shown one after the other, then the close button of the
  first one is clicked: its close task starts and the cascade animation is pending.\<close>

definition twoShown :: "event list" where
  "twoShown = [Notify [JObject 0], WindowReady 0, Fulfil 0,
               Notify [JObject 1], WindowReady 0, Fulfil 0, IpcClose 0 0]"


text \<open>A show task that is waiting for its window will bind it into the active list when
  the window is ready. The capacity invariant: the active list is no longer than the
  maximum (or empty when the maximum is negative), and while a show task waits for its
  window there is room for one more.\<close>

fun waiting :: "task \<times> promise \<Rightarrow> bool" where
  "waiting (t, GetWindow w r) = True"
| "waiting (t, p) = False"

definition room :: "state \<Rightarrow> bool" where
  "room s = (int (length (activeNotifications s)) < maxVisibleNotifications s)"

definition capacity :: "state \<Rightarrow> bool" where
  "capacity s =
     (int (length (activeNotifications s)) \<le> max 0 (maxVisibleNotifications s)
      \<and> (list_all (\<lambda>tp. \<not> waiting tp) (executing s) \<or> room s))"

text \<open>
  What the renderer sends back with a close signal is the request as it arrived there:
  \<open>index.js\<close> sends the request to the window (line 264), \<open>preload.js\<close> sends
  what it received (line 80), so the handler in \<open>index.js\<close> (line 329) gets another
  object, with the properties the request had when it was shown and without its
  functions. Here it is object 2, for request 0. In \<open>dismissed\<close> two notifications
  are shown and the close button of the first is clicked.
\<close>

definition withCopy :: "ref \<Rightarrow> notification" where
  "withCopy = (\<lambda>_. plain)(2 := plain\<lparr>id_field := JNum 0, onCloseFunc := None\<rparr>)"

definition dismissed :: "event list" where
  "dismissed = [Notify [JObject 0], WindowReady 0, Fulfil 0,
                Notify [JObject 1], WindowReady 0, Fulfil 0, IpcClose 0 2, Fulfil 0]"

section \<open>Basic facts\<close>

lemma getTemplatePath_state:
  "snd (getTemplatePath s) =
     s\<lparr>trace := trace s @ template_logs s,
       config_templatePath :=
         Some (case config_templatePath s of
                 None \<Rightarrow> ''file://__dirname/notification.html'' | Some path \<Rightarrow> path)\<rparr>"
  by (simp add: getTemplatePath_def updateTemplatePath_def template_logs_def log_def Let_def
      split: option.splits)

lemma template_logs_update [simp]:
  "template_logs (s\<lparr>nextWindowId := n, trace := tr\<rparr>) = template_logs s"
  by (simp add: template_logs_def)

lemma filter_template_logs [simp]: "filter (onClose_for x) (template_logs s) = []"
  by (simp add: template_logs_def)

lemma push_running:
  "running s \<Longrightarrow> push t s = s\<lparr>queue := queue s @ [t], pushed := pushed s @ [t]\<rparr>"
  by (simp add: push.simps)

lemma push_idle:
  "\<not> running s \<Longrightarrow> push t s = animate t (s\<lparr>running := True, pushed := pushed s @ [t]\<rparr>)"
  by (simp add: push.simps)

lemma frame_refl [simp]: "frame s s"
  by (simp add: frame_def)

lemma frame_trans: "frame s s1 \<Longrightarrow> frame s1 s2 \<Longrightarrow> frame s s2"
  unfolding frame_def
  apply (intro conjI allI)
     apply simp
    apply simp
   apply simp
  subgoal for x
    apply (elim conjE)
    apply (drule_tac x = x in spec)+
    apply auto
    done
  done

lemma frame_showNotification: "frame s (snd (showNotification r s))"
  by (simp add: frame_def showNotification_def getWindow_def getTemplatePath_state Let_def split: prod.splits)

lemma frame_animate_Show: "frame s (animate (Show r) s)"
  by (simp add: frame_def animate.simps showNotification_def getWindow_def getTemplatePath_state Let_def split: prod.splits)

lemma frame_push_Show: "frame s (push (Show r) s)"
  using frame_animate_Show [of "s\<lparr>running := True, pushed := pushed s @ [Show r]\<rparr>" r]
  by (simp add: push.simps frame_def)

lemma frame_check: "frame s (checkForQueuedNotifications s)"
  using frame_push_Show [of "s\<lparr>notificationQueue := tl (notificationQueue s)\<rparr>" "hd (notificationQueue s)"]
  by (simp add: checkForQueuedNotifications.simps frame_def)

lemma frame_closeFunc: "frame s (snd (closeFunc c e s))"
proof (cases "truthy (closed (heap s (notificationObj c)))")
  case True
  then show ?thesis by (simp add: closeFunc.simps)
next
  case False
  show ?thesis
    apply (simp add: closeFunc.simps [of c e s] False Let_def)
    apply (rule frame_trans [OF _ frame_check])
    apply (simp add: frame_def split: option.splits)
    done
qed

lemma frame_animate: "frame s (animate t s)"
proof (cases t)
  case (Show r)
  then show ?thesis by (simp add: frame_animate_Show)
next
  case (Close c e)
  have "frame (s\<lparr>started := started s @ [Close c e]\<rparr>) (snd (closeFunc c e (s\<lparr>started := started s @ [Close c e]\<rparr>)))"
    by (rule frame_closeFunc)
  then show ?thesis
    by (simp add: Close animate.simps frame_def case_prod_beta)
qed

lemma frame_push: "frame s (push t s)"
  using frame_animate [of "s\<lparr>running := True, pushed := pushed s @ [t]\<rparr>" t]
  by (simp add: push.simps frame_def)

lemma frame_animate_then: "frame s (animate_then s)"
  using frame_animate [of "s\<lparr>queue := tl (queue s)\<rparr>" "hd (queue s)"]
  by (simp add: animate_then_def frame_def)

lemma frame_step: "\<forall>a. e \<noteq> Notify a \<Longrightarrow> frame s (step e s)"
proof (cases e)
  case (Fulfil i)
  show ?thesis
    using frame_animate_then [of "settle i s"]
    by (simp add: Fulfil frame_def settle_def split: promise.splits)
next
  case (Timeout tid)
  show ?thesis
  proof (cases "timers s tid")
    case None
    then show ?thesis by (simp add: Timeout)
  next
    case (Some c)
    show ?thesis
      using frame_push [of "s\<lparr>timers := (timers s)(tid := None)\<rparr>" "Close c (JStr ''timeout'')"]
      by (simp add: Timeout Some closeNotificationSafely_def frame_def)
  qed
next
  case (TemplateFile found)
  then show ?thesis by (simp add: frame_def)
qed (auto simp: closeAll_def clear_def Let_def showNotification_then_def animate_catch_def log_def
       settle_def ipc_close_def ipc_click_def closeNotificationSafely_def frame_push
       frame_def [of s "_\<lparr>executing := _\<rparr>"] frame_def [of s "_\<lparr>trace := _\<rparr>"] frame_def [of s "_\<lparr>inactiveWindows := _\<rparr>"]
       split: prod.splits promise.splits option.splits)

lemma calm_refl [simp]: "calm r s s"
  by (simp add: calm_def)

lemma calm_trans: "calm r s s1 \<Longrightarrow> calm r s1 s2 \<Longrightarrow> calm r s s2"
  by (simp add: calm_def)

lemma close_step_calm: "close_step r s s1 \<Longrightarrow> calm r s1 s2 \<Longrightarrow> close_step r s s2"
  by (auto simp: close_step_def calm_def)

lemma calm_close_step: "calm r s s1 \<Longrightarrow> close_step r s1 s2 \<Longrightarrow> close_step r s s2"
  by (auto simp: close_step_def calm_def)

lemma calm_animate_Show: "calm x s (animate (Show r) s)"
  by (simp add: calm_def animate.simps showNotification_def getWindow_def getTemplatePath_state Let_def case_prod_beta)

lemma calm_push_Show: "calm x s (push (Show r) s)"
  using calm_animate_Show [of x "s\<lparr>running := True, pushed := pushed s @ [Show r]\<rparr>" r]
  by (simp add: push.simps calm_def)

lemma calm_check: "calm x s (checkForQueuedNotifications s)"
  using calm_push_Show [of x "s\<lparr>notificationQueue := tl (notificationQueue s)\<rparr>" "hd (notificationQueue s)"]
  by (simp add: checkForQueuedNotifications.simps calm_def)

lemma close_step_closeFunc: "close_step x s (snd (closeFunc c e s))"
proof (cases "truthy (closed (heap s (notificationObj c)))")
  case True
  then show ?thesis by (simp add: closeFunc.simps close_step_def)
next
  case False
  show ?thesis
    apply (simp add: closeFunc.simps [of c e s] False Let_def)
    apply (rule close_step_calm [OF _ calm_check])
    using False
    apply (simp add: close_step_def calm_def split: option.splits)
    done
qed

lemma close_step_animate: "close_step x s (animate t s)"
proof (cases t)
  case (Show r)
  then show ?thesis using calm_animate_Show [of x s r] by (simp add: close_step_def)
next
  case (Close c e)
  have "close_step x (s\<lparr>started := started s @ [Close c e]\<rparr>)
          (snd (closeFunc c e (s\<lparr>started := started s @ [Close c e]\<rparr>)))"
    by (rule close_step_closeFunc)
  then show ?thesis
    by (simp add: Close animate.simps close_step_def calm_def case_prod_beta)
qed

lemma close_step_push: "close_step x s (push t s)"
  using close_step_animate [of x "s\<lparr>running := True, pushed := pushed s @ [t]\<rparr>" t]
  by (simp add: push.simps close_step_def calm_def)

lemma close_step_animate_then: "close_step x s (animate_then s)"
  using close_step_animate [of x "s\<lparr>queue := tl (queue s)\<rparr>" "hd (queue s)"]
  by (simp add: animate_then_def close_step_def calm_def)

lemma close_step_notify: "close_step x s (snd (notify a s))"
proof (cases "\<exists>r. a = [JObject r]")
  case True
  then obtain r where a: "a = [JObject r]" by blast
  show ?thesis
    using calm_push_Show [of x "s\<lparr>heap := (heap s)(r := (heap s r)\<lparr>id_field := JNum (int (latestID s))\<rparr>),
        latestID := js_increment (latestID s)\<rparr>" r]
    by (cases "x = r") (simp_all add: a notify_def Let_def close_step_def calm_def)
next
  case False
  then show ?thesis
    by (auto simp: notify_def log_def close_step_def calm_def split: list.splits jsval.splits)
qed

lemma close_step_step: "close_step x s (step e s)"
proof (cases e)
  case (Notify a)
  then show ?thesis by (simp add: close_step_notify)
next
  case (Fulfil i)
  show ?thesis
    using close_step_animate_then [of x "settle i s"]
    by (simp add: Fulfil close_step_def calm_def settle_def split: promise.splits)
next
  case (Timeout tid)
  show ?thesis
  proof (cases "timers s tid")
    case None
    then show ?thesis by (simp add: Timeout close_step_def)
  next
    case (Some c)
    show ?thesis
      using close_step_push [of x "s\<lparr>timers := (timers s)(tid := None)\<rparr>" "Close c (JStr ''timeout'')"]
      by (simp add: Timeout Some closeNotificationSafely_def close_step_def calm_def)
  qed
next
  case (IpcClose w r)
  then show ?thesis by (simp add: ipc_close_def closeNotificationSafely_def close_step_push)
next
  case (ApiClose c reason)
  then show ?thesis by (simp add: closeNotificationSafely_def close_step_push)
qed (auto simp: closeAll_def clear_def Let_def showNotification_then_def animate_catch_def log_def
       settle_def ipc_click_def close_step_def calm_def
       split: prod.splits promise.splits option.splits)

lemma animate_Show_fields:
  "heap (animate (Show r) s) = heap s" "timers (animate (Show r) s) = timers s"
  "activeNotifications (animate (Show r) s) = activeNotifications s"
  "trace (animate (Show r) s) = trace s
   \<or> trace (animate (Show r) s) = trace s @ NewWindow (nextWindowId s) # template_logs s"
  by (simp_all add: animate.simps showNotification_def getWindow_def getTemplatePath_state
      template_logs_def Let_def case_prod_beta)

lemma push_Show_fields:
  "heap (push (Show r) s) = heap s" "timers (push (Show r) s) = timers s"
  "activeNotifications (push (Show r) s) = activeNotifications s"
  "pushed (push (Show r) s) = pushed s @ [Show r]"
  "trace (push (Show r) s) = trace s
   \<or> trace (push (Show r) s) = trace s @ NewWindow (nextWindowId s) # template_logs s"
  using animate_Show_fields [of r "s\<lparr>running := True, pushed := pushed s @ [Show r]\<rparr>"]
  by (simp_all add: push.simps animate.simps showNotification_def getWindow_def
      getTemplatePath_state template_logs_def Let_def case_prod_beta)

lemma check_fields:
  "heap (checkForQueuedNotifications s) = heap s"
  "timers (checkForQueuedNotifications s) = timers s"
  "activeNotifications (checkForQueuedNotifications s) = activeNotifications s"
  "filter (onClose_for x) (trace (checkForQueuedNotifications s)) = filter (onClose_for x) (trace s)"
  using push_Show_fields [of "hd (notificationQueue s)" "s\<lparr>notificationQueue := tl (notificationQueue s)\<rparr>"]
    calm_check [of x s]
  by (simp_all add: checkForQueuedNotifications.simps calm_def)












lemma same_request_refl [simp]: "same_request a a"
  by (simp add: same_request_def)







lemma closeFunc_closed:
  "truthy (closed (heap s (notificationObj c))) \<Longrightarrow> closeFunc c e s = (Resolved, s)"
  by (simp add: closeFunc.simps)




lemma onClose_once_step:
  assumes "length (filter (onClose_for r) (trace s)) \<le> 1"
    and "filter (onClose_for r) (trace s) \<noteq> [] \<longrightarrow> truthy (closed (heap s r))"
  shows "length (filter (onClose_for r) (trace (step e s))) \<le> 1
     \<and> (filter (onClose_for r) (trace (step e s)) \<noteq> [] \<longrightarrow> truthy (closed (heap (step e s) r)))"
  using close_step_step [of r s e] assms
  by (auto simp: close_step_def calm_def)

lemma onClose_once_run:
  assumes "length (filter (onClose_for r) (trace s)) \<le> 1"
    and "filter (onClose_for r) (trace s) \<noteq> [] \<longrightarrow> truthy (closed (heap s r))"
  shows "length (filter (onClose_for r) (trace (run es s))) \<le> 1
     \<and> (filter (onClose_for r) (trace (run es s)) \<noteq> [] \<longrightarrow> truthy (closed (heap (run es s) r)))"
  using assms
proof (induction es arbitrary: s)
  case Nil
  then show ?case by simp
next
  case (Cons e es)
  show ?case
    using Cons.IH [of "step e s"] onClose_once_step [OF Cons.prems, of e] by simp
qed

lemma onClose_once_init: "length (filter (onClose_for r) (trace (run es (init H h)))) \<le> 1"
  using onClose_once_run [of r "init H h" es] by (simp add: init_def)

lemma shown_fields:
  "closed (heap shown 0) = JUndefined" "onCloseFunc (heap shown 0) = Some 0"
  "id_field (heap shown 0) = JNum 0" "trace shown = [NewWindow 0, SetTimeout 0 (JNum 5000), SetContents 0 0, ShowInactive 0]"
  "activeNotifications shown = [0]" "inactiveWindows shown = []" "timers shown 0 = Some timeoutClose"
  "running shown = False" "queue shown = []" "executing shown = []" "notificationQueue shown = []"
  "maxVisibleNotifications shown = 7"
  by code_simp+

lemma appends_refl [simp]: "appends s s"
  by (simp add: appends_def)

lemma appends_trans: "appends s s1 \<Longrightarrow> appends s1 s2 \<Longrightarrow> appends s s2"
  by (auto simp: appends_def)

lemma appends_push: "running s \<Longrightarrow> appends s (push t s)"
  by (simp add: push_running appends_def)

lemma appends_check: "running s \<Longrightarrow> appends s (checkForQueuedNotifications s)"
  using appends_push [of "s\<lparr>notificationQueue := tl (notificationQueue s)\<rparr>" "Show (hd (notificationQueue s))"]
  by (simp add: checkForQueuedNotifications.simps appends_def)

lemma appends_showNotification: "appends s (snd (showNotification r s))"
  by (simp add: showNotification_def getWindow_def getTemplatePath_state Let_def appends_def case_prod_beta)

lemma appends_closeFunc: "running s \<Longrightarrow> appends s (snd (closeFunc c e s))"
proof (cases "truthy (closed (heap s (notificationObj c)))")
  case True
  then show ?thesis by (simp add: closeFunc_closed)
next
  case False
  assume r: "running s"
  show ?thesis
    apply (simp add: closeFunc.simps [of c e s] False Let_def)
    apply (rule appends_trans [OF _ appends_check])
    using r
     apply (simp_all add: appends_def split: option.splits)
    done
qed

lemma animate_shape:
  assumes "running s"
  shows "\<exists>p xs. executing (animate t s) = executing s @ [(t, p)]
           \<and> started (animate t s) = started s @ [t] \<and> running (animate t s)
           \<and> queue (animate t s) = queue s @ xs \<and> pushed (animate t s) = pushed s @ xs"
proof (cases t)
  case (Show r)
  show ?thesis
    using appends_showNotification [of "s\<lparr>started := started s @ [Show r]\<rparr>" r] assms
    by (auto simp: Show animate.simps appends_def case_prod_beta)
next
  case (Close c e)
  show ?thesis
    using appends_closeFunc [of "s\<lparr>started := started s @ [Close c e]\<rparr>" c e] assms
    by (auto simp: Close animate.simps appends_def case_prod_beta)
qed

lemma serial_animate:
  assumes "running s" and "executing s = []" and "subseq (started s @ t # queue s) (pushed s)"
  shows "serial (animate t s)"
proof -
  from animate_shape [OF assms(1), of t] obtain p xs where
    a: "executing (animate t s) = executing s @ [(t, p)]"
       "started (animate t s) = started s @ [t]" "running (animate t s)"
       "queue (animate t s) = queue s @ xs" "pushed (animate t s) = pushed s @ xs"
    by blast
  have "subseq ((started s @ t # queue s) @ xs) (pushed s @ xs)"
    using assms(3) by (intro list_emb_append_mono) simp_all
  then show ?thesis
    by (simp add: serial_def a assms(2))
qed

lemma serial_push: "serial s \<Longrightarrow> serial (push t s)"
proof (cases "running s")
  case True
  assume "serial s"
  then have "subseq ((started s @ queue s) @ [t]) (pushed s @ [t])"
    unfolding serial_def by (intro list_emb_append_mono) simp_all
  with True \<open>serial s\<close> show ?thesis
    by (simp add: push_running serial_def)
next
  case False
  assume s: "serial s"
  then have q: "queue s = []" "executing s = []" using False by (auto simp: serial_def)
  have "subseq (started s @ [t]) (pushed s @ [t])"
    using s q by (intro list_emb_append_mono) (simp_all add: serial_def)
  then have "serial (animate t (s\<lparr>running := True, pushed := pushed s @ [t]\<rparr>))"
    by (intro serial_animate) (simp_all add: q)
  then show ?thesis by (simp add: push_idle False)
qed

lemma serial_animate_then:
  assumes "serial s" and "executing s = []" and "running s"
  shows "serial (animate_then s)"
proof (cases "queue s")
  case Nil
  then show ?thesis using assms by (simp add: animate_then_def serial_def)
next
  case (Cons t q)
  have "serial (animate t (s\<lparr>queue := q\<rparr>))"
    using assms Cons by (intro serial_animate) (simp_all add: serial_def)
  then show ?thesis by (simp add: animate_then_def Cons)
qed

lemma serial_settle:
  assumes "serial s" and "i < length (executing s)"
  shows "serial (settle i s)" and "executing (settle i s) = []" and "running (settle i s)"
proof -
  from assms have "length (executing s) = 1" "i = 0" "running s"
    by (auto simp: serial_def)
  then show "serial (settle i s)" "executing (settle i s) = []" "running (settle i s)"
    using assms(1) by (auto simp: settle_def serial_def)
qed

lemma serial_notify: "serial s \<Longrightarrow> serial (snd (notify a s))"
proof (cases "\<exists>r. a = [JObject r]")
  case True
  assume "serial s"
  from True obtain r where a: "a = [JObject r]" by blast
  have "serial (s\<lparr>heap := (heap s)(r := (heap s r)\<lparr>id_field := JNum (int (latestID s))\<rparr>),
        latestID := js_increment (latestID s)\<rparr>)"
    using \<open>serial s\<close> by (simp add: serial_def)
  then show ?thesis
    by (simp add: a notify_def Let_def serial_push)
next
  case False
  assume "serial s"
  with False show ?thesis
    by (auto simp: notify_def log_def serial_def split: list.splits jsval.splits)
qed

lemma subseq_prefix: "subseq (xs @ ys) zs \<Longrightarrow> subseq xs zs"
  using list_emb_appendD [of "(=)" xs ys zs] by (auto intro: list_emb_prefix)

lemma serial_step: "serial s \<Longrightarrow> serial (step e s)"
proof (cases e)
  case (Notify a)
  assume "serial s"
  then show ?thesis by (simp add: Notify serial_notify)
next
  case CloseAll
  assume "serial s"
  then show ?thesis
    by (auto simp: CloseAll closeAll_def clear_def Let_def serial_def dest: subseq_prefix)
next
  case (WindowReady i)
  assume "serial s"
  then show ?thesis
    by (auto simp: WindowReady serial_def showNotification_then_def Let_def
        split: prod.splits promise.splits option.splits)
next
  case (Fulfil i)
  assume s: "serial s"
  show ?thesis
  proof (cases "i < length (executing s)")
    case True
    have "serial (animate_then (settle i s))"
      using serial_settle [OF s True] by (intro serial_animate_then)
    then show ?thesis using s by (simp add: Fulfil True split: promise.splits)
  next
    case False
    then show ?thesis using s by (simp add: Fulfil)
  qed
next
  case (Reject i)
  assume s: "serial s"
  show ?thesis
  proof (cases "i < length (executing s)")
    case True
    have "serial (animate_catch (settle i s))"
      using serial_settle [OF s True] by (simp add: animate_catch_def log_def serial_def)
    then show ?thesis using s by (simp add: Reject True split: promise.splits)
  next
    case False
    then show ?thesis using s by (simp add: Reject)
  qed
next
  case (Timeout tid)
  assume s: "serial s"
  show ?thesis
  proof (cases "timers s tid")
    case None
    then show ?thesis using s by (simp add: Timeout)
  next
    case (Some c)
    have "serial (s\<lparr>timers := (timers s)(tid := None)\<rparr>)"
      using s by (simp add: serial_def)
    then show ?thesis
      by (simp add: Timeout Some closeNotificationSafely_def serial_push)
  qed
next
  case (IpcClose w r)
  assume "serial s"
  then show ?thesis by (simp add: IpcClose ipc_close_def closeNotificationSafely_def serial_push)
next
  case (IpcClick w r)
  assume "serial s"
  then show ?thesis
    by (auto simp: IpcClick ipc_click_def Let_def serial_def split: option.splits)
next
  case (ApiClose c reason)
  assume "serial s"
  then show ?thesis by (simp add: ApiClose closeNotificationSafely_def serial_push)
next
  case (TemplateFile found)
  assume "serial s"
  then show ?thesis by (simp add: TemplateFile serial_def)
qed

lemma serial_run: "serial s \<Longrightarrow> serial (run es s)"
  by (induction es arbitrary: s) (simp_all add: serial_step)

lemma serial_init: "serial (init H h)"
  by (simp add: serial_def init_def)

lemma exact_animate:
  assumes "running s" and "started s @ t # queue s = pushed s"
  shows "exact (animate t s)"
proof -
  from animate_shape [OF assms(1), of t] obtain p xs where
    a: "started (animate t s) = started s @ [t]" "running (animate t s)"
       "queue (animate t s) = queue s @ xs" "pushed (animate t s) = pushed s @ xs"
    by blast
  show ?thesis using assms(2) by (simp add: exact_def a)
qed

lemma exact_push: "exact s \<Longrightarrow> exact (push t s)"
proof (cases "running s")
  case True
  assume "exact s"
  with True show ?thesis by (simp add: push_running exact_def)
next
  case False
  assume s: "exact s"
  then have "exact (animate t (s\<lparr>running := True, pushed := pushed s @ [t]\<rparr>))"
    using False by (intro exact_animate) (auto simp: exact_def)
  then show ?thesis by (simp add: push_idle False)
qed

lemma exact_animate_then: "exact s \<Longrightarrow> running s \<Longrightarrow> exact (animate_then s)"
proof (cases "queue s")
  case Nil
  assume "exact s"
  then show ?thesis using Nil by (simp add: animate_then_def exact_def)
next
  case (Cons t q)
  assume "exact s" "running s"
  then have "exact (animate t (s\<lparr>queue := q\<rparr>))"
    using Cons by (intro exact_animate) (simp_all add: exact_def)
  then show ?thesis by (simp add: animate_then_def Cons)
qed

lemma exact_step:
  assumes "exact s" and "serial s" and "e \<noteq> CloseAll"
  shows "exact (step e s)"
proof (cases e)
  case (Notify a)
  show ?thesis
  proof (cases "\<exists>r. a = [JObject r]")
    case True
    then obtain r where a: "a = [JObject r]" by blast
    have "exact (s\<lparr>heap := (heap s)(r := (heap s r)\<lparr>id_field := JNum (int (latestID s))\<rparr>),
        latestID := js_increment (latestID s)\<rparr>)"
      using assms(1) by (simp add: exact_def)
    then show ?thesis
      by (simp add: Notify a notify_def Let_def exact_push)
  next
    case False
    with assms(1) show ?thesis
      by (auto simp: Notify notify_def log_def exact_def split: list.splits jsval.splits)
  qed
next
  case CloseAll
  with assms(3) show ?thesis by simp
next
  case (WindowReady i)
  with assms(1) show ?thesis
    by (auto simp: exact_def showNotification_then_def Let_def
        split: prod.splits promise.splits option.splits)
next
  case (Fulfil i)
  show ?thesis
  proof (cases "i < length (executing s)")
    case True
    have "exact (settle i s)" using assms(1) by (simp add: exact_def settle_def)
    then have "exact (animate_then (settle i s))"
      using serial_settle(3) [OF assms(2) True] by (intro exact_animate_then)
    then show ?thesis using assms(1) by (simp add: Fulfil True split: promise.splits)
  next
    case False
    then show ?thesis using assms(1) by (simp add: Fulfil)
  qed
next
  case (Reject i)
  with assms(1) show ?thesis
    by (auto simp: exact_def animate_catch_def log_def settle_def split: promise.splits)
next
  case (Timeout tid)
  show ?thesis
  proof (cases "timers s tid")
    case None
    then show ?thesis using assms(1) by (simp add: Timeout)
  next
    case (Some c)
    have "exact (s\<lparr>timers := (timers s)(tid := None)\<rparr>)"
      using assms(1) by (simp add: exact_def)
    then show ?thesis
      by (simp add: Timeout Some closeNotificationSafely_def exact_push)
  qed
next
  case (IpcClose w r)
  with assms(1) show ?thesis by (simp add: ipc_close_def closeNotificationSafely_def exact_push)
next
  case (IpcClick w r)
  with assms(1) show ?thesis
    by (auto simp: ipc_click_def Let_def exact_def split: option.splits)
next
  case (ApiClose c reason)
  with assms(1) show ?thesis by (simp add: closeNotificationSafely_def exact_push)
next
  case (TemplateFile found)
  with assms(1) show ?thesis by (simp add: exact_def)
qed

lemma exact_run:
  "exact s \<Longrightarrow> serial s \<Longrightarrow> CloseAll \<notin> set es \<Longrightarrow> exact (run es s)"
proof (induction es arbitrary: s)
  case Nil
  then show ?case by simp
next
  case (Cons e es)
  have "exact (run es (step e s))"
    using Cons.prems by (intro Cons.IH exact_step serial_step) auto
  then show ?case by simp
qed

lemma exact_init: "exact (init H h)"
  by (simp add: exact_def init_def)

lemma push_idle_starts:
  assumes "\<not> running s"
  shows "started (push t s) = started s @ [t] \<and> running (push t s)
         \<and> (\<exists>p. executing (push t s) = executing s @ [(t, p)])"
proof -
  obtain p xs where
    "executing (animate t (s\<lparr>running := True, pushed := pushed s @ [t]\<rparr>)) = executing s @ [(t, p)]"
    "started (animate t (s\<lparr>running := True, pushed := pushed s @ [t]\<rparr>)) = started s @ [t]"
    "running (animate t (s\<lparr>running := True, pushed := pushed s @ [t]\<rparr>))"
    using animate_shape [of "s\<lparr>running := True, pushed := pushed s @ [t]\<rparr>" t] by auto
  then show ?thesis by (simp add: push_idle assms)
qed

lemma stalled_step:
  assumes "running s" and "executing s = []"
  shows "running (step e s) \<and> executing (step e s) = [] \<and> started (step e s) = started s"
proof (cases e)
  case (Notify a)
  show ?thesis
  proof (cases "\<exists>r. a = [JObject r]")
    case True
    then obtain r where a: "a = [JObject r]" by blast
    show ?thesis using assms by (simp add: Notify a notify_def Let_def push_running)
  next
    case False
    with assms show ?thesis
      by (auto simp: Notify notify_def log_def split: list.splits jsval.splits)
  qed
next
  case (Timeout tid)
  with assms show ?thesis
    by (simp add: closeNotificationSafely_def push_running split: option.splits)
qed (use assms in \<open>auto simp: closeAll_def clear_def Let_def ipc_close_def ipc_click_def
       closeNotificationSafely_def push_running split: option.splits\<close>)

lemma stalled_run:
  assumes "running s" and "executing s = []"
  shows "running (run es s) \<and> executing (run es s) = [] \<and> started (run es s) = started s"
  using assms
proof (induction es arbitrary: s)
  case Nil
  then show ?case by simp
next
  case (Cons e es)
  show ?case
    using Cons.IH [of "step e s"] stalled_step [OF Cons.prems, of e] by simp
qed

lemma reject_effect:
  assumes "serial s" and "i < length (executing s)" and "snd (executing s ! i) = Moving"
  shows "step (Reject i) s = animate_catch (settle i s)"
    and "running (step (Reject i) s)" and "executing (step (Reject i) s) = []"
    and "queue (step (Reject i) s) = queue s" and "started (step (Reject i) s) = started s"
    and "pushed (step (Reject i) s) = pushed s"
    and "trace (step (Reject i) s)
         = trace s @ [Log ''node-desktop-notification encountered an error!'', Log ''err.stack'']"
  using assms serial_settle [OF assms(1,2)]
  by (simp_all add: animate_catch_def log_def) (simp_all add: settle_def)

lemma twoShown_fields:
  "executing (run twoShown (init 750 (\<lambda>_. plain))) = [(Close ipcClose (JStr ''close''), Moving)]"
  "started (run twoShown (init 750 (\<lambda>_. plain))) = [Show 0, Show 1, Close ipcClose (JStr ''close'')]"
  "activeNotifications (run twoShown (init 750 (\<lambda>_. plain))) = [1]"
  by code_simp+




lemma length_splice1: "length (splice1 pos xs) \<le> length xs"
  by (simp add: splice1_def Let_def)

lemma closeFunc_active:
  "length (activeNotifications (snd (closeFunc c e s))) \<le> length (activeNotifications s)"
  by (cases "truthy (closed (heap s (notificationObj c)))")
    (simp_all add: closeFunc_closed closeFunc.simps [of c e s] Let_def check_fields length_splice1
      split: option.splits)

lemma closeFunc_promise: "\<not> waiting (t, fst (closeFunc c e s))"
  by (cases "truthy (closed (heap s (notificationObj c)))")
    (simp_all add: closeFunc_closed closeFunc.simps [of c e s] Let_def moveOneDown_def)

lemma maxVisible_closeFunc:
  "maxVisibleNotifications (snd (closeFunc c e s)) = maxVisibleNotifications s"
  using frame_closeFunc [of s c e] by (simp add: frame_def)

lemma capacity_animate:
  assumes "running s" and "executing s = []"
    and "int (length (activeNotifications s)) \<le> max 0 (maxVisibleNotifications s)"
  shows "capacity (animate t s)"
proof (cases t)
  case (Show r)
  show ?thesis
    using assms
    by (simp add: Show animate.simps showNotification_def getWindow_def getTemplatePath_state Let_def capacity_def room_def)
next
  case (Close c e)
  let ?s = "s\<lparr>started := started s @ [Close c e]\<rparr>"
  have "executing (snd (closeFunc c e ?s)) = []"
    using appends_closeFunc [of ?s c e] assms by (simp add: appends_def)
  moreover have "length (activeNotifications (snd (closeFunc c e ?s))) \<le> length (activeNotifications s)"
    using closeFunc_active [of c e ?s] by simp
  moreover have "maxVisibleNotifications (snd (closeFunc c e ?s)) = maxVisibleNotifications s"
    by (simp add: maxVisible_closeFunc)
  ultimately show ?thesis
    using assms(3) closeFunc_promise [of "Close c e" c e ?s]
    by (simp add: Close animate.simps capacity_def case_prod_beta)
qed

lemma capacity_push: "serial s \<Longrightarrow> capacity s \<Longrightarrow> capacity (push t s)"
proof (cases "running s")
  case True
  assume "capacity s"
  with True show ?thesis by (simp add: push_running capacity_def room_def)
next
  case False
  assume "serial s" "capacity s"
  then have "capacity (animate t (s\<lparr>running := True, pushed := pushed s @ [t]\<rparr>))"
    using False by (intro capacity_animate) (auto simp: serial_def capacity_def)
  then show ?thesis by (simp add: push_idle False)
qed

lemma capacity_animate_then:
  assumes "capacity s" and "executing s = []" and "running s"
  shows "capacity (animate_then s)"
proof (cases "queue s")
  case Nil
  then show ?thesis using assms by (simp add: animate_then_def capacity_def room_def)
next
  case (Cons t q)
  have "capacity (animate t (s\<lparr>queue := q\<rparr>))"
    using assms by (intro capacity_animate) (simp_all add: capacity_def)
  then show ?thesis by (simp add: animate_then_def Cons)
qed

lemma capacity_step:
  assumes "serial s" and "capacity s"
  shows "capacity (step e s)"
proof (cases e)
  case (Notify a)
  show ?thesis
  proof (cases "\<exists>r. a = [JObject r]")
    case True
    then obtain r where a: "a = [JObject r]" by blast
    let ?s = "s\<lparr>heap := (heap s)(r := (heap s r)\<lparr>id_field := JNum (int (latestID s))\<rparr>),
        latestID := js_increment (latestID s)\<rparr>"
    have "serial ?s" "capacity ?s"
      using assms by (simp_all add: serial_def capacity_def room_def)
    then show ?thesis
      by (simp add: Notify a notify_def Let_def capacity_push)
  next
    case False
    with assms(2) show ?thesis
      by (auto simp: Notify notify_def log_def capacity_def room_def split: list.splits jsval.splits)
  qed
next
  case CloseAll
  with assms(2) show ?thesis
    by (auto simp: closeAll_def clear_def Let_def capacity_def room_def)
next
  case (WindowReady i)
  show ?thesis
  proof (cases "i < length (executing s)")
    case True
    with assms(1) have one: "length (executing s) = 1" "i = 0" by (auto simp: serial_def)
    then obtain t p where ex: "executing s = [(t, p)]"
      by (cases "executing s") auto
    show ?thesis
      using assms(2)
      by (cases p) (auto simp: WindowReady one ex capacity_def room_def showNotification_then_def Let_def
          split: option.splits)
  next
    case False
    then show ?thesis using assms(2) by (simp add: WindowReady)
  qed
next
  case (Fulfil i)
  show ?thesis
  proof (cases "i < length (executing s)")
    case True
    have "capacity (settle i s)"
      using assms(2) serial_settle(2) [OF assms(1) True] by (simp add: capacity_def) (simp add: settle_def)
    then have "capacity (animate_then (settle i s))"
      using serial_settle [OF assms(1) True] by (intro capacity_animate_then)
    then show ?thesis using assms(2) by (simp add: Fulfil True split: promise.splits)
  next
    case False
    then show ?thesis using assms(2) by (simp add: Fulfil)
  qed
next
  case (Reject i)
  show ?thesis
  proof (cases "i < length (executing s)")
    case True
    have "capacity (animate_catch (settle i s))"
      using assms(2) serial_settle(2) [OF assms(1) True]
      by (simp add: capacity_def animate_catch_def log_def) (simp add: settle_def)
    then show ?thesis using assms(2) by (simp add: Reject True split: promise.splits)
  next
    case False
    then show ?thesis using assms(2) by (simp add: Reject)
  qed
next
  case (Timeout tid)
  show ?thesis
  proof (cases "timers s tid")
    case None
    then show ?thesis using assms(2) by (simp add: Timeout)
  next
    case (Some c)
    have "serial (s\<lparr>timers := (timers s)(tid := None)\<rparr>)" "capacity (s\<lparr>timers := (timers s)(tid := None)\<rparr>)"
      using assms by (simp_all add: serial_def capacity_def room_def)
    then show ?thesis
      by (simp add: Timeout Some closeNotificationSafely_def capacity_push)
  qed
next
  case (IpcClose w r)
  with assms show ?thesis by (simp add: ipc_close_def closeNotificationSafely_def capacity_push)
next
  case (IpcClick w r)
  with assms(2) show ?thesis
    by (auto simp: ipc_click_def Let_def capacity_def room_def split: option.splits)
next
  case (ApiClose c reason)
  with assms show ?thesis by (simp add: closeNotificationSafely_def capacity_push)
next
  case (TemplateFile found)
  with assms(2) show ?thesis by (simp add: capacity_def room_def)
qed

lemma capacity_run: "serial s \<Longrightarrow> capacity s \<Longrightarrow> capacity (run es s)"
proof (induction es arbitrary: s)
  case Nil
  then show ?case by simp
next
  case (Cons e es)
  have "capacity (run es (step e s))"
    using Cons.prems by (intro Cons.IH serial_step capacity_step)
  then show ?case by simp
qed

lemma capacity_init: "capacity (init H h)"
  by (simp add: capacity_def init_def)

lemma maxVisible_step: "maxVisibleNotifications (step e s) = maxVisibleNotifications s"
proof (cases "is_Notify e")
  case True
  then obtain a where e: "e = Notify a" by (cases e) simp_all
  show ?thesis
  proof (cases "\<exists>r. a = [JObject r]")
    case True
    then obtain r where a: "a = [JObject r]" by blast
    show ?thesis
      using frame_push_Show [of "s\<lparr>heap := (heap s)(r := (heap s r)\<lparr>id_field := JNum (int (latestID s))\<rparr>),
        latestID := js_increment (latestID s)\<rparr>" r]
      by (simp add: e a notify_def Let_def frame_def)
  next
    case False
    then show ?thesis
      by (auto simp: e notify_def log_def split: list.splits jsval.splits)
  qed
next
  case False
  then have "frame s (step e s)" by (intro frame_step) auto
  then show ?thesis by (simp add: frame_def)
qed

lemma maxVisible_run: "maxVisibleNotifications (run es s) = maxVisibleNotifications s"
  by (induction es arbitrary: s) (simp_all add: maxVisible_step)

lemma capacity_sample_fields:
  "(Show 0, GetWindow 0 0) \<in> set (executing (run [Notify [JObject 0]] (init 750 (\<lambda>_. plain))))"
  "room shown" "\<not> room (init 0 (\<lambda>_. plain))" "fst (getWindow shown) = 1"
  "notificationQueue (init 0 (\<lambda>_. plain)) = []"
  by code_simp+



lemma calcMaxVisible_nonneg: "0 \<le> H \<Longrightarrow> 0 \<le> calcMaxVisible H"
  by (simp add: calcMaxVisible_def totalHeight_def config_height_def config_padding_def Let_def
      pos_imp_zdiv_nonneg_iff)



section \<open>Claims\<close>

text \<open>
  C1. In every state that a run of events reaches from the initial state, at most one
  task promise is pending, and the tasks started so far, followed by the tasks waiting
  in the queue, form a subsequence of the tasks pushed so far, in push order; when
  \<open>closeAll\<close> never cleared the queue they are exactly the tasks pushed so far. A
  push while \<open>running\<close> is set only appends the task to the queue; a push while it is
  not set starts the task at once and sets \<open>running\<close>.
\<close>

theorem animation_queue_serializes:
  "length (executing (run es (init H h))) \<le> 1
   \<and> subseq (started (run es (init H h)) @ queue (run es (init H h))) (pushed (run es (init H h)))
   \<and> (CloseAll \<notin> set es \<longrightarrow>
        started (run es (init H h)) @ queue (run es (init H h)) = pushed (run es (init H h)))
   \<and> (running s \<longrightarrow> push t s = s\<lparr>queue := queue s @ [t], pushed := pushed s @ [t]\<rparr>)
   \<and> (\<not> running s \<longrightarrow>
        started (push t s) = started s @ [t] \<and> running (push t s)
        \<and> (\<exists>p. executing (push t s) = executing s @ [(t, p)]))"
proof -
  have "serial (run es (init H h))"
    by (intro serial_run serial_init)
  moreover have "CloseAll \<notin> set es \<Longrightarrow> exact (run es (init H h))"
    by (intro exact_run exact_init serial_init)
  ultimately show ?thesis
    using push_idle_starts [of s t] by (auto simp: serial_def exact_def push_running)
qed

theorem animation_queue_serializes_witness:
  "CloseAll \<notin> set [Notify [JObject 0], Notify [JObject 1], WindowReady 0, Timeout 0, Fulfil 0]
   \<and> started (run [Notify [JObject 0], Notify [JObject 1], WindowReady 0, Timeout 0, Fulfil 0]
        (init 750 (\<lambda>_. plain))) = [Show 0, Show 1]
   \<and> queue (run [Notify [JObject 0], Notify [JObject 1], WindowReady 0, Timeout 0, Fulfil 0]
        (init 750 (\<lambda>_. plain))) = [Close timeoutClose (JStr ''timeout'')]
   \<and> pushed (run [Notify [JObject 0], Notify [JObject 1], WindowReady 0, Timeout 0, Fulfil 0]
        (init 750 (\<lambda>_. plain))) = [Show 0, Show 1, Close timeoutClose (JStr ''timeout'')]
   \<and> \<not> running shown
   \<and> started (push (Show 1) shown) = started shown @ [Show 1]
   \<and> running (push (Show 1) shown)
   \<and> queue (push (Show 2) (push (Show 1) shown)) = [Show 2]
   \<and> started (push (Show 2) (push (Show 1) shown)) = started shown @ [Show 1]"
  using animation_queue_serializes [of "[Notify [JObject 0], Notify [JObject 1], WindowReady 0, Timeout 0, Fulfil 0]"
      750 "\<lambda>_. plain" shown "Show 1"]
    animation_queue_serializes [of "[]" 750 "\<lambda>_. plain" "push (Show 1) shown" "Show 2"]
  by (simp add: shown_fields timeoutClose_def init_def plain_def calcMaxVisible_def totalHeight_def
      config_height_def config_padding_def notify_def push.simps animate.simps
      showNotification_def getWindow_def getTemplatePath_state Let_def showNotification_then_def animate_then_def settle_def
      closeNotificationSafely_def Let_def)

text \<open>
  C2. In a state reached by a run, let the pending promise of the running task be
  rejected. The \<open>catch\<close> handler logs its two lines; the queue keeps every pending
  task, no task is started, and \<open>running\<close> stays set with no task pending. From
  then on, after any further events, \<open>running\<close> is still set, no promise is pending,
  no further task has been started, and a push only appends to the queue.
\<close>

theorem rejected_task_stalls_queue:
  assumes "s = run es0 (init H h)"
    and "i < length (executing s)" and "snd (executing s ! i) = Moving"
  shows "trace (step (Reject i) s)
           = trace s @ [Log ''node-desktop-notification encountered an error!'', Log ''err.stack'']
         \<and> queue (step (Reject i) s) = queue s
         \<and> started (step (Reject i) s) = started s
         \<and> running (step (Reject i) s)
         \<and> executing (step (Reject i) s) = []
         \<and> running (run es (step (Reject i) s))
         \<and> executing (run es (step (Reject i) s)) = []
         \<and> started (run es (step (Reject i) s)) = started s
         \<and> push t (run es (step (Reject i) s))
             = (run es (step (Reject i) s))
                 \<lparr>queue := queue (run es (step (Reject i) s)) @ [t],
                  pushed := pushed (run es (step (Reject i) s)) @ [t]\<rparr>"
proof -
  have s: "serial s" unfolding assms(1) by (intro serial_run serial_init)
  note r = reject_effect [OF s assms(2,3)]
  have st: "running (run es (step (Reject i) s)) \<and> executing (run es (step (Reject i) s)) = []
      \<and> started (run es (step (Reject i) s)) = started (step (Reject i) s)"
    by (intro stalled_run r)
  then have "push t (run es (step (Reject i) s))
             = (run es (step (Reject i) s))
                 \<lparr>queue := queue (run es (step (Reject i) s)) @ [t],
                  pushed := pushed (run es (step (Reject i) s)) @ [t]\<rparr>"
    by (intro push_running) simp
  with st r show ?thesis by simp
qed

theorem rejected_task_stalls_queue_witness:
  "0 < length (executing (run twoShown (init 750 (\<lambda>_. plain))))
   \<and> snd (executing (run twoShown (init 750 (\<lambda>_. plain))) ! 0) = Moving
   \<and> running (run [Notify [JObject 2], Timeout 1]
        (step (Reject 0) (run twoShown (init 750 (\<lambda>_. plain)))))
   \<and> started (run [Notify [JObject 2], Timeout 1]
        (step (Reject 0) (run twoShown (init 750 (\<lambda>_. plain)))))
       = [Show 0, Show 1, Close ipcClose (JStr ''close'')]"
  using rejected_task_stalls_queue [of "run twoShown (init 750 (\<lambda>_. plain))" twoShown 750 "\<lambda>_. plain" 0
      "[Notify [JObject 2], Timeout 1]" "Show 0"]
  by (simp add: twoShown_fields)




text \<open>Every other malformed call (no argument, several arguments, or one argument that
  is not of type object) logs the diagnostic, returns \<open>undefined\<close> and changes nothing
  but the trace.\<close>

lemma notify_malformed:
  "\<not> valid_call arguments \<Longrightarrow> arguments \<noteq> [JNull] \<Longrightarrow>
   notify arguments s =
     (Inr JUndefined,
      s\<lparr>trace := trace s @
        [Log ''node-desktop-notification: ERROR notify() only accepts a single object with notification parameters.'']\<rparr>)"
  by (cases arguments rule: valid_call.cases)
    (auto simp: notify_def log_def split: list.splits)

text \<open>
  C4 (evaluation of the code at the failing input). \<open>notify(null)\<close> passes the test
  \<open>typeof notification === 'object'\<close> and then throws a TypeError on the assignment
  of \<open>id\<close>: the call returns no id, logs nothing and leaves the state as it was, but
  the error leaves \<open>notify\<close>.
\<close>

theorem notify_null_throws: "notify [JNull] s = (Inl TypeError, s)"
  by (simp add: notify_def)

text \<open>
  C5. In every state that a run of events reaches from the initial state of a display
  whose work area height is not negative, the number of active notifications is at most
  the maximum; whatever the height, it is at most the maximum or zero. The maximum stays
  the one computed at start. A show task that is waiting for its window always has room
  for it; the continuation binds that one window; \<open>showNotification\<close> asks for a
  window only when the active list is strictly shorter than the maximum and leaves the
  active list and the overflow queue alone then, and otherwise it appends the request
  to the overflow queue, fulfils its promise and changes nothing else.
\<close>

theorem active_never_exceeds_capacity:
  "(0 \<le> H \<longrightarrow>
      int (length (activeNotifications (run es (init H h))))
        \<le> maxVisibleNotifications (run es (init H h)))
   \<and> int (length (activeNotifications (run es (init H h)))) \<le> max 0 (calcMaxVisible H)
   \<and> maxVisibleNotifications (run es (init H h)) = calcMaxVisible H
   \<and> (\<forall>tp \<in> set (executing (run es (init H h))). waiting tp \<longrightarrow> room (run es (init H h)))
   \<and> activeNotifications (showNotification_then w r s) = activeNotifications s @ [w]
   \<and> (room s \<longrightarrow> fst (showNotification r s) = GetWindow (fst (getWindow s)) r
        \<and> activeNotifications (snd (showNotification r s)) = activeNotifications s
        \<and> notificationQueue (snd (showNotification r s)) = notificationQueue s)
   \<and> (\<not> room s \<longrightarrow>
        showNotification r s = (Resolved, s\<lparr>notificationQueue := notificationQueue s @ [r]\<rparr>))"
proof -
  have c: "capacity (run es (init H h))"
    by (intro capacity_run serial_init capacity_init)
  have m: "maxVisibleNotifications (run es (init H h)) = calcMaxVisible H"
    by (simp add: maxVisible_run) (simp add: init_def)
  have "\<forall>tp \<in> set (executing (run es (init H h))). waiting tp \<longrightarrow> room (run es (init H h))"
    using c by (auto simp: capacity_def list_all_iff)
  moreover have b: "int (length (activeNotifications (run es (init H h)))) \<le> max 0 (calcMaxVisible H)"
    using c m by (simp add: capacity_def)
  moreover have "0 \<le> H \<Longrightarrow>
      int (length (activeNotifications (run es (init H h))))
        \<le> maxVisibleNotifications (run es (init H h))"
    using b m calcMaxVisible_nonneg [of H] by simp
  ultimately show ?thesis
    using m
    by (simp add: showNotification_def room_def getWindow_def getTemplatePath_state
        showNotification_then_def Let_def case_prod_beta split: option.splits)
qed

theorem active_never_exceeds_capacity_witness:
  "(0::int) \<le> 750
   \<and> int (length (activeNotifications (run [Notify [JObject 0]] (init 750 (\<lambda>_. plain)))))
       \<le> maxVisibleNotifications (run [Notify [JObject 0]] (init 750 (\<lambda>_. plain)))
   \<and> (Show 0, GetWindow 0 0) \<in> set (executing (run [Notify [JObject 0]] (init 750 (\<lambda>_. plain))))
   \<and> waiting (Show 0, GetWindow 0 0)
   \<and> room (run [Notify [JObject 0]] (init 750 (\<lambda>_. plain)))
   \<and> room shown
   \<and> fst (showNotification 1 shown) = GetWindow 1 1
   \<and> \<not> room (init 0 (\<lambda>_. plain))
   \<and> fst (showNotification 1 (init 0 (\<lambda>_. plain))) = Resolved
   \<and> notificationQueue (snd (showNotification 1 (init 0 (\<lambda>_. plain)))) = [1]"
proof -
  note a = active_never_exceeds_capacity [of 750 "[Notify [JObject 0]]" "\<lambda>_. plain" 0 1 shown]
  note b = active_never_exceeds_capacity [of 0 "[]" "\<lambda>_. plain" 0 1 "init 0 (\<lambda>_. plain)"]
  note f = capacity_sample_fields
  have h: "(0::int) \<le> 750" by simp
  have w: "waiting (Show 0, GetWindow 0 0)" by simp
  have c0: "int (length (activeNotifications (run [Notify [JObject 0]] (init 750 (\<lambda>_. plain)))))
       \<le> maxVisibleNotifications (run [Notify [JObject 0]] (init 750 (\<lambda>_. plain)))"
    using a [THEN conjunct1, THEN mp, OF h] .
  have c1: "room (run [Notify [JObject 0]] (init 750 (\<lambda>_. plain)))"
    using a [THEN conjunct2, THEN conjunct2, THEN conjunct2, THEN conjunct1, THEN bspec, OF f(1),
        THEN mp, OF w] .
  have c2: "fst (showNotification 1 shown) = GetWindow 1 1"
    using a [THEN conjunct2, THEN conjunct2, THEN conjunct2, THEN conjunct2, THEN conjunct2,
        THEN conjunct1, THEN mp, OF f(2), THEN conjunct1]
    by (simp add: f(4))
  have "showNotification 1 (init 0 (\<lambda>_. plain))
      = (Resolved, (init 0 (\<lambda>_. plain))\<lparr>notificationQueue := notificationQueue (init 0 (\<lambda>_. plain)) @ [1]\<rparr>)"
    using b [THEN conjunct2, THEN conjunct2, THEN conjunct2, THEN conjunct2, THEN conjunct2,
        THEN conjunct2, THEN mp, OF f(3)] .
  then have c3: "fst (showNotification 1 (init 0 (\<lambda>_. plain))) = Resolved"
    and c4: "notificationQueue (snd (showNotification 1 (init 0 (\<lambda>_. plain)))) = [1]"
    by (simp_all add: f(5))
  show ?thesis
    using h c0 f(1) w c1 f(2) c2 f(3) c3 c4 by (intro conjI)
qed

text \<open>
  C6 (evaluation of the code at the failing input). Two notifications are on screen
  and the close button of the first is clicked. The close task marks the object that
  came with the signal as closed, not the caller's request 0, recycles window 0 and
  calls no \<open>onCloseFunc\<close>. When the timer of request 0 fires afterwards, the close
  of the same request is not a no-op: \<open>onCloseFunc\<close> is called with reason timeout,
  window 0 goes into the pool a second time, and since window 0 is no longer in the
  active list, \<open>splice(-1, 1)\<close> removes window 1, whose request is still open.
\<close>

theorem dismissed_request_closes_again:
  "closed (heap (run dismissed (init 750 withCopy)) 2) = JBool True
   \<and> closed (heap (run dismissed (init 750 withCopy)) 0) = JUndefined
   \<and> activeNotifications (run dismissed (init 750 withCopy)) = [1]
   \<and> inactiveWindows (run dismissed (init 750 withCopy)) = [0]
   \<and> filter (onClose_for 0) (trace (run dismissed (init 750 withCopy))) = []
   \<and> activeNotifications (run (dismissed @ [Timeout 0]) (init 750 withCopy)) = []
   \<and> inactiveWindows (run (dismissed @ [Timeout 0]) (init 750 withCopy)) = [0, 0]
   \<and> filter (onClose_for 0) (trace (run (dismissed @ [Timeout 0]) (init 750 withCopy)))
       = [OnClose 0 0 (JStr ''timeout'') (JNum 0)]
   \<and> closed (heap (run (dismissed @ [Timeout 0]) (init 750 withCopy)) 1) = JUndefined"
  by code_simp




text \<open>
  C8, as stated, fails: a request waiting in \<open>notificationQueue\<close> is still there
  after \<open>closeAll()\<close>. With no visible slot, one \<open>notify\<close> puts its request in the
  overflow queue, and \<open>closeAll\<close> leaves it there.
\<close>

theorem closeAll_keeps_overflow:
  "notificationQueue (closeAll (run [Notify [JObject 0], Fulfil 0] (init 0 (\<lambda>_. plain)))) = [0]"
  by code_simp

text \<open>
  C8, amended. After \<open>closeAll()\<close> the animation queue has no pending task, the
  active list and the pool are empty, \<open>close()\<close> has been called on every window of
  the active list and then on every window of the pool, and the overflow queue is what
  it was before the call.
\<close>

theorem closeAll_effect:
  "queue (closeAll s) = [] \<and> activeNotifications (closeAll s) = []
   \<and> inactiveWindows (closeAll s) = []
   \<and> trace (closeAll s) =
       trace s @ map WindowClose (activeNotifications s) @ map WindowClose (inactiveWindows s)
   \<and> notificationQueue (closeAll s) = notificationQueue s"
  by (simp add: closeAll_def clear_def Let_def)

text \<open>
  C9, as stated, fails: a negative quotient is not clamped to zero. For a work area
  height of \<open>-75\<close> the quotient is \<open>-1\<close> and so is the computed maximum.
\<close>

theorem calcMaxVisible_not_clamped:
  "(- 75) div (config_height + config_padding) < 0 \<and> calcMaxVisible (- 75) = - 1"
  by (simp add: calcMaxVisible_def totalHeight_def config_height_def config_padding_def)

text \<open>
  C9, amended. The maximum is the floored quotient capped at 7, with no lower bound;
  whenever it is zero or negative, a show task appends its request to the overflow
  queue, fulfils its promise and changes nothing else.
\<close>

theorem calcMaxVisible_floor_cap:
  "calcMaxVisible H = min 7 (H div (config_height + config_padding))
   \<and> (maxVisibleNotifications s \<le> 0 \<longrightarrow>
        showNotification r s = (Resolved, s\<lparr>notificationQueue := notificationQueue s @ [r]\<rparr>))"
  by (simp add: calcMaxVisible_def totalHeight_def Let_def showNotification_def)

theorem calcMaxVisible_floor_cap_witness:
  "calcMaxVisible (- 75) = min 7 ((- 75) div (config_height + config_padding))
   \<and> maxVisibleNotifications (init (- 75) (\<lambda>_. plain)) \<le> 0
   \<and> fst (showNotification 0 (init (- 75) (\<lambda>_. plain))) = Resolved
   \<and> notificationQueue (snd (showNotification 0 (init (- 75) (\<lambda>_. plain)))) = [0]"
  using calcMaxVisible_floor_cap [of "- 75" "init (- 75) (\<lambda>_. plain)" 0]
  by (simp add: init_def calcMaxVisible_def totalHeight_def config_height_def config_padding_def)



end
